theory Spec2Isabelle
  imports Main "HOL-Library.Word"
begin

unbundle bit_operations_syntax

section \<open>Processor affinity probe (Sources/CLinuxAffinity/ProcessorAffinity.c)\<close>

text \<open>
  The file holds one C function, \<^verbatim>\<open>int linux_sched_getaffinity()\<close>. It asks the kernel
  for the affinity mask of the calling thread, asks \<^verbatim>\<open>sysconf\<close> for the number of online
  processors, and counts the mask bits below that number.

  The C types are those of Linux on an LP64 target: \<^verbatim>\<open>long\<close> has 64 bits (the locals
  \<^verbatim>\<open>nproc\<close>, \<^verbatim>\<open>i\<close> and \<^verbatim>\<open>count\<close>), \<^verbatim>\<open>int\<close> has 32 bits (the return value). Both are
  words, read as two's complement by \<open>sint\<close>. Addition of words wraps; the lemmas
  \<open>sint_succ_long\<close> and \<open>count_loop_card\<close> below show that neither \<^verbatim>\<open>i++\<close> nor
  \<^verbatim>\<open>count += 1\<close> ever does in the loop.
\<close>

type_synonym long = "64 word"
type_synonym cint = "32 word"

subsection \<open>What the C library provides\<close>

text \<open>
  Modelled from the spec: \<^verbatim>\<open>cpu_set_t\<close> is declared in the system header sched.h, which
  is no part of the repository. The spec describes the mask as a fixed-capacity set of
  bits, one bit position per logical CPU index, whose capacity is an OS-defined constant
  distinct from the live CPU count. On Linux that constant is \<^verbatim>\<open>CPU_SETSIZE\<close> = 1024, so
  \<^verbatim>\<open>sizeof(cpu_set_t)\<close> is 128 bytes; bit \<open>n\<close> of the word stands for CPU \<open>n\<close>.
\<close>

type_synonym cpu_set_t = "1024 word"

definition sizeof_cpu_set_t :: nat where
  "sizeof_cpu_set_t = 128"

text \<open>
  Modelled from the spec: the macro \<^verbatim>\<open>CPU_ISSET(cpu, &set)\<close> of sched.h, the spec's test
  of whether an index is set in the affinity mask. The macro converts \<^verbatim>\<open>cpu\<close> to
  \<^verbatim>\<open>size_t\<close> (\<open>unat\<close> of the 64-bit value), answers 0 when \<^verbatim>\<open>cpu / 8\<close> is not below the
  size of the set in bytes, and tests the bit otherwise.
\<close>

definition CPU_ISSET :: "long \<Rightarrow> cpu_set_t \<Rightarrow> bool" where
  "CPU_ISSET cpu cpusetp =
     (let cpu' = unat cpu
      in if cpu' div 8 < sizeof_cpu_set_t then bit cpusetp cpu' else False)"

text \<open>
  The causes for which \<^verbatim>\<open>sched_getaffinity\<close> returns -1, and the numbers Linux gives
  them in errno.h.
\<close>

datatype errno = EFAULT | EINVAL | EPERM | ESRCH

fun errno_code :: "errno \<Rightarrow> int" where
  "errno_code EPERM = 1"
| "errno_code ESRCH = 3"
| "errno_code EFAULT = 14"
| "errno_code EINVAL = 22"

text \<open>
  What the function can observe of the operating system: the outcome of the affinity query
  for the calling thread (\<open>Inl e\<close>: the call returns -1 with cause \<open>e\<close>; \<open>Inr m\<close>: the call
  returns 0 and stores \<open>m\<close> in the caller's buffer), and the value that
  \<^verbatim>\<open>sysconf(_SC_NPROCESSORS_ONLN)\<close> returns, a \<^verbatim>\<open>long\<close> that is -1 when that query fails.
  What a library call can change is the calling thread's \<^verbatim>\<open>errno\<close>, an \<^verbatim>\<open>int\<close>.
  The record is extensible: its \<open>more\<close> part stands for all other state of the process and
  of the system.
\<close>

record os_state =
  affinity :: "errno + cpu_set_t"
  nprocessors_onln :: long
  thread_errno :: int

text \<open>
  Modelled from the spec: the two library calls (the spec's steps 1 and 3). Each returns
  its answer together with the state it leaves behind. Both are queries of the kernel's
  state; a failing \<^verbatim>\<open>sched_getaffinity\<close> stores the cause in \<^verbatim>\<open>errno\<close>, as every
  failing system call of the C library does.
\<close>

definition sched_getaffinity :: "'a os_state_scheme \<Rightarrow> (errno + cpu_set_t) \<times> 'a os_state_scheme" where
  "sched_getaffinity s =
     (case affinity s of
        Inl e \<Rightarrow> (Inl e, s\<lparr>thread_errno := errno_code e\<rparr>)
      | Inr m \<Rightarrow> (Inr m, s))"

definition sysconf_SC_NPROCESSORS_ONLN :: "'a os_state_scheme \<Rightarrow> long \<times> 'a os_state_scheme" where
  "sysconf_SC_NPROCESSORS_ONLN s = (nprocessors_onln s, s)"

subsection \<open>The function\<close>

text \<open>
  The loop of lines 32 to 35, with the loop variable \<^verbatim>\<open>i\<close> and the accumulator
  \<^verbatim>\<open>count\<close> as arguments:
  \<^verbatim>\<open>for (i = 0; i < nproc; i++) { if(CPU_ISSET(i, &mask)) count += 1; }\<close>
  The comparison is the signed one of \<^verbatim>\<open>long\<close>. The measure of the termination proof
  is the distance from \<^verbatim>\<open>i\<close> to \<^verbatim>\<open>nproc\<close>.
\<close>

function count_loop :: "cpu_set_t \<Rightarrow> long \<Rightarrow> long \<Rightarrow> long \<Rightarrow> long" where
  "count_loop msk nproc i count =
     (if i <s nproc
      then count_loop msk nproc (i + 1) (if CPU_ISSET i msk then count + 1 else count)
      else count)"
  by pat_completeness auto
termination
proof (relation "measure (\<lambda>(msk, nproc, i, count). nat (sint nproc - sint i))")
  show "wf (measure (\<lambda>(msk :: cpu_set_t, nproc :: long, i :: long, count :: long).
    nat (sint nproc - sint i)))"
    by simp
next
  fix msk :: cpu_set_t and nproc i count :: long
  assume "i <s nproc"
  then have below: "sint i < sint nproc" by (simp add: word_sless_alt)
  have top: "sint nproc < 2 ^ 63" using sint_lt [of nproc] by simp
  have bot: "- (2 ^ 63) \<le> sint i" using sint_ge [of i] by simp
  have "sint (i + 1) = signed_take_bit 63 (sint i + 1)"
    by (simp add: sint_word_ariths)
  also have "\<dots> = sint i + 1"
    using below top bot by (intro signed_take_bit_int_eq_self) auto
  finally have "sint (i + 1) = sint i + 1" .
  with below show "((msk, nproc, i + 1, if CPU_ISSET i msk then count + 1 else count),
      (msk, nproc, i, count))
    \<in> measure (\<lambda>(msk, nproc, i, count). nat (sint nproc - sint i))"
    by simp
qed

declare count_loop.simps [simp del]

text \<open>
  The same loop with a bound on the number of iterations it may perform: \<open>None\<close> when
  the bound is used up before the loop condition fails.
\<close>

fun count_loop_fuel :: "nat \<Rightarrow> cpu_set_t \<Rightarrow> long \<Rightarrow> long \<Rightarrow> long \<Rightarrow> long option" where
  "count_loop_fuel fuel msk nproc i count =
     (if i <s nproc
      then (case fuel of
              0 \<Rightarrow> None
            | Suc fuel' \<Rightarrow>
                count_loop_fuel fuel' msk nproc (i + 1) (if CPU_ISSET i msk then count + 1 else count))
      else Some count)"

declare count_loop_fuel.simps [simp del]

text \<open>
  The function, lines 24 to 38. The result is paired with the state of the system after
  the call. \<^verbatim>\<open>return count\<close> converts the \<^verbatim>\<open>long\<close> to \<^verbatim>\<open>int\<close>, which keeps the low
  32 bits (\<open>ucast\<close>).
\<close>

definition linux_sched_getaffinity :: "'a os_state_scheme \<Rightarrow> cint \<times> 'a os_state_scheme" where
  "linux_sched_getaffinity s =
     (case sched_getaffinity s of
        (Inl e, s1) \<Rightarrow> (- 1, s1)
      | (Inr msk, s1) \<Rightarrow>
          (case sysconf_SC_NPROCESSORS_ONLN s1 of
             (nproc, s2) \<Rightarrow> (ucast (count_loop msk nproc 0 0), s2)))"

subsection \<open>Vocabulary of the properties\<close>

text \<open>
  The indices that the loop still has to visit when its variable is \<open>i\<close>, those from
  \<open>i\<close> up to the online CPU count, whose bit is set in the mask.
\<close>

definition online_set :: "cpu_set_t \<Rightarrow> long \<Rightarrow> long \<Rightarrow> nat set" where
  "online_set msk nproc i = {n. sint i \<le> int n \<and> int n < sint nproc \<and> bit msk n}"

section \<open>Auxiliary facts\<close>

subsection \<open>Arithmetic of the C types\<close>

text \<open>
  Below the loop bound the increment of the loop variable does not overflow; a
  non-negative \<^verbatim>\<open>long\<close> converts to \<^verbatim>\<open>size_t\<close> unchanged; a count of at most 1024
  survives the conversion to \<^verbatim>\<open>int\<close>; and the guard of \<^verbatim>\<open>CPU_ISSET\<close> only excludes
  indices that the mask has no bit for.
\<close>

lemma sint_succ_long:
  fixes i n :: long
  assumes "i <s n"
  shows "sint (i + 1) = sint i + 1"
proof -
  from assms have a: "sint i < sint n" by (simp add: word_sless_alt)
  have b: "sint n < 2 ^ 63" using sint_lt [of n] by simp
  have c: "- (2 ^ 63) \<le> sint i" using sint_ge [of i] by simp
  have "sint (i + 1) = signed_take_bit 63 (sint i + 1)"
    by (simp add: sint_word_ariths)
  also have "\<dots> = sint i + 1"
    using a b c by (intro signed_take_bit_int_eq_self) auto
  finally show ?thesis .
qed

lemma CPU_ISSET_iff: "CPU_ISSET i msk \<longleftrightarrow> bit msk (unat i)"
proof (cases "unat i div 8 < 128")
  case True
  then show ?thesis by (simp add: CPU_ISSET_def sizeof_cpu_set_t_def)
next
  case False
  then have "\<not> unat i < 1024" by arith
  then have "\<not> bit msk (unat i)"
    using bit_imp_le_length [of msk "unat i"] by auto
  with False show ?thesis by (simp add: CPU_ISSET_def sizeof_cpu_set_t_def)
qed

lemma sint_nonneg_unat:
  fixes i :: long
  assumes "0 \<le> sint i"
  shows "int (unat i) = sint i"
proof (cases "uint i < 2 ^ 63")
  case True
  have "sint i = signed_take_bit 63 (uint i)" by (simp add: sint_uint)
  also have "\<dots> = uint i"
  proof (rule signed_take_bit_int_eq_self)
    have "- (2 ^ 63) \<le> (0::int)" by simp
    also have "(0::int) \<le> uint i" by simp
    finally show "- (2 ^ 63) \<le> uint i" .
    show "uint i < 2 ^ 63" by (rule True)
  qed
  finally show ?thesis by simp
next
  case False
  then have "2 ^ 63 \<le> uint i" by simp
  then have "signed_take_bit 63 (uint i) \<le> uint i - 2 ^ Suc 63"
    by (rule signed_take_bit_int_less_eq)
  then have f1: "signed_take_bit 63 (uint i) \<le> uint i - 18446744073709551616"
    by simp
  have f2: "uint i < 18446744073709551616" using uint_lt2p [of i] by simp
  have f3: "sint i = signed_take_bit 63 (uint i)" by (simp add: sint_uint)
  from f1 f2 f3 assms have False by linarith
  then show ?thesis ..
qed

lemma return_small:
  assumes "k \<le> 1024"
  shows "sint (ucast (of_nat k :: long) :: cint) = int k"
proof -
  have u: "unat (of_nat k :: long) = k"
    using assms by (simp add: unat_of_nat take_bit_nat_eq_self)
  have "(ucast (of_nat k :: long) :: cint) = word_of_int (uint (of_nat k :: long))"
    by (rule ucast_eq)
  also have "uint (of_nat k :: long) = int k"
    using u by (simp add: uint_nat)
  finally have "(ucast (of_nat k :: long) :: cint) = of_nat k"
    by simp
  then have "sint (ucast (of_nat k :: long) :: cint) = signed_take_bit 31 (int k)"
    by (simp add: signed_of_nat)
  also have "\<dots> = int k"
    using assms by (intro signed_take_bit_int_eq_self) auto
  finally show ?thesis .
qed

subsection \<open>The loop counts the set bits below the bound\<close>

lemma online_set_subset: "online_set msk nproc i \<subseteq> {..<1024}"
  using bit_imp_le_length [of msk] by (auto simp: online_set_def)

lemma finite_online_set: "finite (online_set msk nproc i)"
  by (rule finite_subset [OF online_set_subset]) simp

lemma card_online_set: "card (online_set msk nproc i) \<le> 1024"
  using card_mono [of "{..<1024}" "online_set msk nproc i"] online_set_subset [of msk nproc i]
  by simp

lemma online_set_step:
  assumes "i <s nproc" "0 \<le> sint i"
  shows "online_set msk nproc i =
    (if CPU_ISSET i msk then insert (unat i) (online_set msk nproc (i + 1))
     else online_set msk nproc (i + 1))"
proof -
  define u where "u = unat i"
  have b: "sint i = int u"
    using sint_nonneg_unat [OF assms(2)] by (simp only: u_def)
  have a: "sint (i + 1) = int u + 1"
    using sint_succ_long [OF assms(1)] b by (simp only:)
  have c: "int u < sint nproc"
    using assms(1) b by (simp only: word_sless_alt)
  have d: "int u \<le> int n \<longleftrightarrow> n = u \<or> int u + 1 \<le> int n" for n
    by linarith
  show ?thesis
    unfolding online_set_def CPU_ISSET_iff a b u_def [symmetric] d
    using c by auto
qed

lemma online_set_done: "\<not> i <s nproc \<Longrightarrow> online_set msk nproc i = {}"
  by (auto simp: online_set_def word_sless_alt)

lemma unat_notin_next:
  assumes "i <s nproc" "0 \<le> sint i"
  shows "unat i \<notin> online_set msk nproc (i + 1)"
proof -
  define u where "u = unat i"
  have b: "sint i = int u"
    using sint_nonneg_unat [OF assms(2)] by (simp only: u_def)
  have a: "sint (i + 1) = int u + 1"
    using sint_succ_long [OF assms(1)] b by (simp only:)
  show ?thesis
    unfolding online_set_def a u_def [symmetric] by simp
qed

lemma count_loop_card:
  "0 \<le> sint i \<Longrightarrow> count_loop msk nproc i count = count + of_nat (card (online_set msk nproc i))"
proof (induction msk nproc i count rule: count_loop.induct)
  case (1 msk nproc i count)
  show ?case
  proof (cases "i <s nproc")
    case True
    define count' where "count' = (if CPU_ISSET i msk then count + 1 else count)"
    define S' where "S' = online_set msk nproc (i + 1)"
    have fin: "finite S'" unfolding S'_def by (rule finite_online_set)
    have nin: "unat i \<notin> S'"
      unfolding S'_def using True "1.prems" by (rule unat_notin_next)
    have nonneg: "0 \<le> sint (i + 1)"
      using sint_succ_long [OF True] "1.prems" by linarith
    have "count_loop msk nproc i count = count_loop msk nproc (i + 1) count'"
      using True by (subst count_loop.simps) (simp only: count'_def if_True)
    also have "\<dots> = count' + of_nat (card S')"
      unfolding count'_def S'_def using True nonneg by (rule "1.IH")
    also have "\<dots> = count + of_nat (card (online_set msk nproc i))"
    proof (cases "CPU_ISSET i msk")
      case True
      have "online_set msk nproc i = insert (unat i) S'"
        unfolding S'_def using online_set_step [OF \<open>i <s nproc\<close> "1.prems", of msk] True
        by (simp only: if_True)
      then have "card (online_set msk nproc i) = Suc (card S')"
        using card_insert_disjoint [OF fin nin] by (simp only:)
      moreover have "count' = count + 1"
        using True by (simp only: count'_def if_True)
      ultimately show ?thesis
        by (simp only: of_nat_Suc add.assoc)
    next
      case False
      have "online_set msk nproc i = S'"
        unfolding S'_def using online_set_step [OF \<open>i <s nproc\<close> "1.prems", of msk] False
        by (simp only: if_False)
      moreover have "count' = count"
        using False by (simp only: count'_def if_False)
      ultimately show ?thesis
        by (simp only:)
    qed
    finally show ?thesis .
  next
    case False
    have "count_loop msk nproc i count = count"
      using False by (subst count_loop.simps) (simp only: if_False)
    moreover have "online_set msk nproc i = {}"
      using False by (rule online_set_done)
    ultimately show ?thesis
      by simp
  qed
qed

lemma online_set_0: "online_set msk nproc 0 = {n. int n < sint nproc \<and> bit msk n}"
  by (simp add: online_set_def)

lemma count_loop_from_0:
  "count_loop msk nproc 0 0 = of_nat (card {n. int n < sint nproc \<and> bit msk n})"
  using count_loop_card [of 0 msk nproc 0] by (simp add: online_set_0)

lemma card_allowed_le: "card {n. int n < sint nproc \<and> bit msk n} \<le> 1024"
  for msk :: cpu_set_t and nproc :: long
  using card_online_set [of msk nproc 0] by (simp add: online_set_0)

lemma card_allowed_le_nproc:
  "int (card {n. int n < sint nproc \<and> bit msk n}) \<le> max 0 (sint nproc)"
  for msk :: cpu_set_t and nproc :: long
proof -
  have "{n. int n < sint nproc \<and> bit msk n} \<subseteq> {..<nat (sint nproc)}"
    by auto
  then have "card {n. int n < sint nproc \<and> bit msk n} \<le> card {..<nat (sint nproc)}"
    by (intro card_mono) auto
  then show ?thesis by simp
qed

subsection \<open>The two branches of the function\<close>

lemma getaffinity_Inl:
  "affinity s = Inl e \<Longrightarrow>
   linux_sched_getaffinity s = (- 1, s\<lparr>thread_errno := errno_code e\<rparr>)"
  by (simp add: linux_sched_getaffinity_def sched_getaffinity_def)

lemma getaffinity_Inr:
  "affinity s = Inr msk \<Longrightarrow>
   linux_sched_getaffinity s = (ucast (count_loop msk (nprocessors_onln s) 0 0), s)"
  by (simp add: linux_sched_getaffinity_def sched_getaffinity_def sysconf_SC_NPROCESSORS_ONLN_def)

lemma getaffinity_value:
  assumes "affinity s = Inr msk"
  shows "sint (fst (linux_sched_getaffinity s)) =
    int (card {n. int n < sint (nprocessors_onln s) \<and> bit msk n})"
  using assms return_small [OF card_allowed_le [of "nprocessors_onln s" msk]]
  by (simp add: getaffinity_Inr count_loop_from_0)

lemma getaffinity_nonneg:
  assumes "affinity s = Inr msk"
  shows "0 \<le> sint (fst (linux_sched_getaffinity s))"
  using getaffinity_value [OF assms] by simp

lemma getaffinity_le_online:
  assumes "affinity s = Inr msk"
  shows "sint (fst (linux_sched_getaffinity s)) \<le> max 0 (sint (nprocessors_onln s))"
  using getaffinity_value [OF assms] card_allowed_le_nproc [of "nprocessors_onln s" msk]
  by (simp only:)

subsection \<open>The bounded loop\<close>

text \<open>
  A bound of at least the distance from \<^verbatim>\<open>i\<close> to \<^verbatim>\<open>nproc\<close> is never used up.
\<close>

lemma count_loop_fuel_enough:
  "nat (sint nproc - sint i) \<le> fuel \<Longrightarrow>
   count_loop_fuel fuel msk nproc i count = Some (count_loop msk nproc i count)"
proof (induction fuel arbitrary: i count)
  case 0
  then have "\<not> i <s nproc" by (simp add: word_sless_alt)
  then show ?case
    by (subst count_loop_fuel.simps, subst count_loop.simps) simp
next
  case (Suc fuel)
  show ?case
  proof (cases "i <s nproc")
    case True
    have "sint (i + 1) = sint i + 1" using True by (rule sint_succ_long)
    with Suc.prems have "nat (sint nproc - sint (i + 1)) \<le> fuel" by simp
    then have "count_loop_fuel fuel msk nproc (i + 1) (if CPU_ISSET i msk then count + 1 else count) =
      Some (count_loop msk nproc (i + 1) (if CPU_ISSET i msk then count + 1 else count))"
      by (rule Suc.IH)
    with True show ?thesis
      by (subst count_loop_fuel.simps, subst count_loop.simps) simp
  next
    case False
    then show ?thesis
      by (subst count_loop_fuel.simps, subst count_loop.simps) simp
  qed
qed

subsection \<open>A host with 8 online CPUs\<close>

lemma below_8: "int n < sint (8 :: long) \<longleftrightarrow> n \<in> {0, 1, 2, 3, 4, 5, 6, 7}" for n :: nat
  by simp arith

section \<open>The properties of the specification\<close>

text \<open>
  C1. When the affinity query succeeds with mask \<open>msk\<close> and the online CPU count is
  \<open>nproc\<close>, the function returns exactly the number of indices \<open>i\<close> with
  \<open>0 \<le> i < nproc\<close> whose bit is set in \<open>msk\<close>.
\<close>

theorem getaffinity_counts_set_bits:
  "sint (fst (linux_sched_getaffinity
      \<lparr>affinity = Inr msk, nprocessors_onln = nproc, thread_errno = en, \<dots> = rest\<rparr>)) =
   int (card {i::nat. int i < sint nproc \<and> bit msk i})"
  using getaffinity_value
    [of "\<lparr>affinity = Inr msk, nprocessors_onln = nproc, thread_errno = en, \<dots> = rest\<rparr>" msk]
  by simp

text \<open>
  C2. The function returns -1 if and only if the affinity query fails; whenever the query
  does not fail, the returned value is at least 0.
\<close>

theorem getaffinity_sentinel_iff_query_fails:
  "(sint (fst (linux_sched_getaffinity s)) = - 1 \<longleftrightarrow> isl (affinity s)) \<and>
   (\<not> isl (affinity s) \<longrightarrow> 0 \<le> sint (fst (linux_sched_getaffinity s)))"
proof (cases "affinity s")
  case (Inl e)
  then show ?thesis by (simp add: getaffinity_Inl)
next
  case (Inr msk)
  then show ?thesis using getaffinity_nonneg [OF Inr] by simp
qed

theorem getaffinity_sentinel_witness:
  "sint (fst (linux_sched_getaffinity
      \<lparr>affinity = Inl EPERM, nprocessors_onln = 8, thread_errno = 0\<rparr>)) = - 1 \<and>
   0 \<le> sint (fst (linux_sched_getaffinity
      \<lparr>affinity = Inr 21, nprocessors_onln = 8, thread_errno = 0\<rparr>))"
  using getaffinity_sentinel_iff_query_fails
      [of "\<lparr>affinity = Inl EPERM, nprocessors_onln = 8, thread_errno = 0\<rparr>"]
    getaffinity_sentinel_iff_query_fails
      [of "\<lparr>affinity = Inr 21, nprocessors_onln = 8, thread_errno = 0\<rparr>"]
  by simp

text \<open>
  C3. After a successful affinity query the returned value lies between 0 and the online
  CPU count, the number of online CPUs that \<^verbatim>\<open>sysconf\<close> reports (a count, hence not
  negative).
\<close>

theorem count_in_range:
  assumes "0 \<le> sint nproc"
  shows "0 \<le> sint (fst (linux_sched_getaffinity
        \<lparr>affinity = Inr msk, nprocessors_onln = nproc, thread_errno = en, \<dots> = rest\<rparr>)) \<and>
    sint (fst (linux_sched_getaffinity
        \<lparr>affinity = Inr msk, nprocessors_onln = nproc, thread_errno = en, \<dots> = rest\<rparr>))
      \<le> sint nproc"
proof -
  let ?s = "\<lparr>affinity = Inr msk, nprocessors_onln = nproc, thread_errno = en, \<dots> = rest\<rparr>"
  have "0 \<le> sint (fst (linux_sched_getaffinity ?s))"
    by (rule getaffinity_nonneg [of ?s msk]) simp
  moreover have "sint (fst (linux_sched_getaffinity ?s)) \<le> max 0 (sint nproc)"
    using getaffinity_le_online [of ?s msk] by simp
  ultimately show ?thesis
    using assms by simp
qed

theorem count_in_range_witness:
  "0 \<le> sint (fst (linux_sched_getaffinity
      \<lparr>affinity = Inr 21, nprocessors_onln = 8, thread_errno = 0\<rparr>)) \<and>
   sint (fst (linux_sched_getaffinity
      \<lparr>affinity = Inr 21, nprocessors_onln = 8, thread_errno = 0\<rparr>)) \<le> 8"
proof -
  have nn: "0 \<le> sint (8 :: long)" by simp
  show ?thesis
    using count_in_range [OF nn, of 21 0 "()"] by simp
qed




text \<open>
  C5. Once the affinity query has succeeded, nothing else can make the function report an
  error: whatever value \<^verbatim>\<open>sysconf\<close> returns, the loop runs to its end (the function
  \<open>count_loop\<close> is total) and the returned value is not the sentinel -1.
\<close>

theorem no_error_after_successful_query:
  "fst (linux_sched_getaffinity
      \<lparr>affinity = Inr msk, nprocessors_onln = nproc, thread_errno = en, \<dots> = rest\<rparr>) \<noteq> - 1 \<and>
   sint (fst (linux_sched_getaffinity
      \<lparr>affinity = Inr msk, nprocessors_onln = nproc, thread_errno = en, \<dots> = rest\<rparr>)) \<noteq> - 1"
proof -
  let ?s = "\<lparr>affinity = Inr msk, nprocessors_onln = nproc, thread_errno = en, \<dots> = rest\<rparr>"
  have nonneg: "0 \<le> sint (fst (linux_sched_getaffinity ?s))"
    by (rule getaffinity_nonneg [of ?s msk]) simp
  then have "sint (fst (linux_sched_getaffinity ?s)) \<noteq> - 1"
    by linarith
  moreover have "fst (linux_sched_getaffinity ?s) \<noteq> - 1"
  proof
    assume "fst (linux_sched_getaffinity ?s) = - 1"
    then have "sint (fst (linux_sched_getaffinity ?s)) = sint (- 1 :: cint)"
      by (simp only:)
    with nonneg show False by simp
  qed
  ultimately show ?thesis by (simp only: simp_thms)
qed

text \<open>
  C6. When the affinity query succeeds and \<^verbatim>\<open>sysconf(_SC_NPROCESSORS_ONLN)\<close> returns
  zero or a negative value, the function returns 0, not the sentinel -1.
\<close>

theorem nonpositive_cpu_count_gives_zero:
  assumes "sint nproc \<le> 0"
  shows "fst (linux_sched_getaffinity
      \<lparr>affinity = Inr msk, nprocessors_onln = nproc, thread_errno = en, \<dots> = rest\<rparr>) = 0"
proof -
  have "\<not> 0 <s nproc"
    using assms by (simp add: word_sless_alt)
  then have "count_loop msk nproc 0 0 = 0"
    by (subst count_loop.simps) (simp only: if_False)
  then show ?thesis
    by (simp add: getaffinity_Inr)
qed

theorem nonpositive_cpu_count_witness:
  "fst (linux_sched_getaffinity
      \<lparr>affinity = Inr 255, nprocessors_onln = - 1, thread_errno = 0\<rparr>) = 0 \<and>
   fst (linux_sched_getaffinity
      \<lparr>affinity = Inr 255, nprocessors_onln = 0, thread_errno = 0\<rparr>) = 0"
proof -
  have neg: "sint (- 1 :: long) \<le> 0" by simp
  have zero: "sint (0 :: long) \<le> 0" by simp
  show ?thesis
    using nonpositive_cpu_count_gives_zero [OF neg, of 255 0 "()"]
      nonpositive_cpu_count_gives_zero [OF zero, of 255 0 "()"]
    by simp
qed



text \<open>
  C9. The function always terminates. For every mask and every online CPU count, zero and
  negative ones included, the recursion of the loop from \<open>i = 0\<close> is well-founded, the
  loop leaves after at most \<open>max 0 nproc\<close> iterations with a value \<open>r\<close>, and the function
  returns that value; when the affinity query fails the function returns at once.
\<close>

theorem getaffinity_terminates:
  "count_loop_dom (msk, nproc, 0, 0) \<and>
   (\<exists>r. count_loop_fuel (nat (sint nproc)) msk nproc 0 0 = Some r \<and>
      linux_sched_getaffinity
        \<lparr>affinity = Inr msk, nprocessors_onln = nproc, thread_errno = en, \<dots> = rest\<rparr> =
        (ucast r,
         \<lparr>affinity = Inr msk, nprocessors_onln = nproc, thread_errno = en, \<dots> = rest\<rparr>)) \<and>
   linux_sched_getaffinity
     \<lparr>affinity = Inl e, nprocessors_onln = nproc, thread_errno = en, \<dots> = rest\<rparr> =
     (- 1,
      \<lparr>affinity = Inl e, nprocessors_onln = nproc, thread_errno = errno_code e, \<dots> = rest\<rparr>)"
proof -
  have "All count_loop_dom"
  proof (relation "measure (\<lambda>(msk, nproc, i, count). nat (sint nproc - sint i))")
    show "wf (measure (\<lambda>(msk :: cpu_set_t, nproc :: long, i :: long, count :: long).
      nat (sint nproc - sint i)))"
      by simp
  next
    fix msk :: cpu_set_t and nproc i count :: long
    assume less: "i <s nproc"
    then have "sint i < sint nproc" by (simp add: word_sless_alt)
    with sint_succ_long [OF less]
    show "((msk, nproc, i + 1, if CPU_ISSET i msk then count + 1 else count),
        (msk, nproc, i, count))
      \<in> measure (\<lambda>(msk, nproc, i, count). nat (sint nproc - sint i))"
      by simp
  qed
  then have dom: "count_loop_dom (msk, nproc, 0, 0)" by simp
  have fuel: "count_loop_fuel (nat (sint nproc)) msk nproc 0 0 = Some (count_loop msk nproc 0 0)"
    by (rule count_loop_fuel_enough) simp
  show ?thesis
    using dom fuel by (simp add: getaffinity_Inr getaffinity_Inl)
qed

text \<open>
  C10. Bits of the mask at indices from the online CPU count on are ignored: two masks
  that agree below the online CPU count give the same result, and for every mask the
  returned count never exceeds the online CPU count (the number of online CPUs that
  \<^verbatim>\<open>sysconf\<close> reports, hence not negative), whatever bits the mask has set at higher
  indices.
\<close>

theorem high_bits_ignored:
  assumes "\<forall>i::nat. int i < sint nproc \<longrightarrow> bit msk i = bit msk' i"
  shows "fst (linux_sched_getaffinity
        \<lparr>affinity = Inr msk, nprocessors_onln = nproc, thread_errno = en, \<dots> = rest\<rparr>) =
      fst (linux_sched_getaffinity
        \<lparr>affinity = Inr msk', nprocessors_onln = nproc, thread_errno = en, \<dots> = rest\<rparr>) \<and>
    (0 \<le> sint nproc \<longrightarrow>
     sint (fst (linux_sched_getaffinity
        \<lparr>affinity = Inr msk, nprocessors_onln = nproc, thread_errno = en, \<dots> = rest\<rparr>))
       \<le> sint nproc)"
proof -
  let ?s = "\<lparr>affinity = Inr msk, nprocessors_onln = nproc, thread_errno = en, \<dots> = rest\<rparr>"
  let ?s' = "\<lparr>affinity = Inr msk', nprocessors_onln = nproc, thread_errno = en, \<dots> = rest\<rparr>"
  have "{i::nat. int i < sint nproc \<and> bit msk i} = {i::nat. int i < sint nproc \<and> bit msk' i}"
    using assms by auto
  then have "count_loop msk nproc 0 0 = count_loop msk' nproc 0 0"
    by (simp only: count_loop_from_0)
  then have same: "fst (linux_sched_getaffinity ?s) = fst (linux_sched_getaffinity ?s')"
    by (simp add: getaffinity_Inr)
  have "sint (fst (linux_sched_getaffinity ?s)) \<le> max 0 (sint nproc)"
    using getaffinity_le_online [of ?s msk] by simp
  then have bound: "0 \<le> sint nproc \<longrightarrow>
      sint (fst (linux_sched_getaffinity ?s)) \<le> sint nproc"
    by linarith
  show ?thesis
    using same bound by (rule conjI)
qed

theorem high_bits_ignored_witness:
  "fst (linux_sched_getaffinity \<lparr>affinity = Inr 21, nprocessors_onln = 8, thread_errno = 0\<rparr>) =
   fst (linux_sched_getaffinity \<lparr>affinity = Inr 789, nprocessors_onln = 8, thread_errno = 0\<rparr>) \<and>
   sint (fst (linux_sched_getaffinity
      \<lparr>affinity = Inr 21, nprocessors_onln = 8, thread_errno = 0\<rparr>)) \<le> sint (8 :: long)"
proof -
  have agree: "\<forall>i::nat. int i < sint (8 :: long) \<longrightarrow>
      bit (21 :: cpu_set_t) i = bit (789 :: cpu_set_t) i"
    unfolding below_8 by auto
  have nn: "0 \<le> sint (8 :: long)"
    by simp
  show ?thesis
    using high_bits_ignored [OF agree, of 0 "()"] nn by blast
qed

end
